theory Spec2Isabelle
  imports
    Main
    "HOL-Library.Monad_Syntax"
    "HOL-Library.Product_Lexorder"
    "HOL-Library.Multiset"
begin

section \<open>Python strings\<close>

text \<open>
  A Python \<open>str\<close> is a sequence of code points. The model covers the code points
  below 256, one \<open>char\<close> each, so \<open>length\<close> is Python's \<open>len\<close>. The character
  classes below are the ones Python uses on that range.
\<close>

definition LF :: char where
  "LF = CHR 0x0A"

definition CR :: char where
  "CR = CHR 0x0D"

text \<open>\<open>str.isspace\<close> and the regular expression class \<open>\s\<close> (Unicode white space).\<close>

definition is_space :: "char \<Rightarrow> bool" where
  "is_space c \<longleftrightarrow> c \<in> set [CHR 0x09, CHR 0x0A, CHR 0x0B, CHR 0x0C, CHR 0x0D,
     CHR 0x1C, CHR 0x1D, CHR 0x1E, CHR 0x1F, CHR 0x20, CHR 0x85, CHR 0xA0]"

text \<open>The line boundaries of \<open>str.splitlines\<close>.\<close>

definition is_linebreak :: "char \<Rightarrow> bool" where
  "is_linebreak c \<longleftrightarrow> c \<in> set [CHR 0x0A, CHR 0x0B, CHR 0x0C, CHR 0x0D,
     CHR 0x1C, CHR 0x1D, CHR 0x1E, CHR 0x85]"

text \<open>The regular expression class \<open>\d\<close> (decimal digits), which \<open>int\<close> accepts.\<close>

definition is_decimal :: "char \<Rightarrow> bool" where
  "is_decimal c \<longleftrightarrow> c \<in> set ''0123456789''"

text \<open>
  \<open>str.isdigit\<close> on one character: the decimal digits and the superscript digits
  two, three and one (code points B2, B3, B9), which \<open>int\<close> rejects.
\<close>

definition is_digit_char :: "char \<Rightarrow> bool" where
  "is_digit_char c \<longleftrightarrow> is_decimal c \<or> c \<in> set [CHR 0xB2, CHR 0xB3, CHR 0xB9]"

definition isdigit :: "string \<Rightarrow> bool" where
  "isdigit s \<longleftrightarrow> s \<noteq> [] \<and> list_all is_digit_char s"

text \<open>The value of a decimal digit: its place among the ten digits.\<close>

definition digit_val :: "char \<Rightarrow> nat" where
  "digit_val c = length (takeWhile (\<lambda>d. d \<noteq> c) ''0123456789'')"

datatype error = ValueError | OSError

text \<open>
  \<open>int(s)\<close> for the strings this program converts: two characters that passed \<open>\d\<close> or
  \<open>isdigit\<close>. A string of decimal digits has its value; any other raises \<open>ValueError\<close>
  (here \<open>None\<close>).
\<close>

definition py_int :: "string \<Rightarrow> nat option" where
  "py_int s =
     (if s \<noteq> [] \<and> list_all is_decimal s
      then Some (foldl (\<lambda>n c. 10 * n + digit_val c) 0 s) else None)"

text \<open>
  \<open>str.splitlines()\<close>: the text is cut at every line boundary, a carriage return
  followed by a line feed counting as one boundary; the boundaries are not kept, and a
  final boundary opens no empty last line. The first argument is the line read so far.
\<close>

fun splitlines_from :: "string \<Rightarrow> string \<Rightarrow> string list" where
  "splitlines_from acc [] = (if acc = [] then [] else [acc])"
| "splitlines_from acc [c] = (if is_linebreak c then [acc] else [acc @ [c]])"
| "splitlines_from acc (c # d # cs) =
     (if c = CR \<and> d = LF then acc # splitlines_from [] cs
      else if is_linebreak c then acc # splitlines_from [] (d # cs)
      else splitlines_from (acc @ [c]) (d # cs))"

definition splitlines :: "string \<Rightarrow> string list" where
  "splitlines s = splitlines_from [] s"

text \<open>\<open>s.split(sep)\<close> for a one-character separator.\<close>

fun split_from :: "char \<Rightarrow> string \<Rightarrow> string \<Rightarrow> string list" where
  "split_from sep acc [] = [acc]"
| "split_from sep acc (c # cs) =
     (if c = sep then acc # split_from sep [] cs else split_from sep (acc @ [c]) cs)"

definition split :: "char \<Rightarrow> string \<Rightarrow> string list" where
  "split sep s = split_from sep [] s"

definition strip :: "string \<Rightarrow> string" where
  "strip s = rev (dropWhile is_space (rev (dropWhile is_space s)))"

section \<open>The header pattern\<close>

text \<open>
  \<open>TIMESTAMP_PATTERN\<close> is
  \<^verbatim>\<open>^(\d{2}/\d{2})\s+(\d{2}:\d{2}:\d{2})\s+UTC\s+\[([^\]]+)\]\s+(.*)$\<close>
  and is applied with \<open>match\<close>, from the start of the line. Each piece of it is followed
  by a character its repetition cannot contain (a digit, \<open>U\<close>, \<open>[\<close>, \<open>]\<close>), or by
  \<open>(.*)$\<close>, which takes whatever is left; so the greedy reading below is the only match.
\<close>

fun take_digits2 :: "string \<Rightarrow> (string \<times> string) option" where
  "take_digits2 (a # b # r) = (if is_decimal a \<and> is_decimal b then Some ([a, b], r) else None)"
| "take_digits2 _ = None"

fun expect :: "string \<Rightarrow> string \<Rightarrow> string option" where
  "expect [] s = Some s"
| "expect (p # ps) [] = None"
| "expect (p # ps) (c # cs) = (if p = c then expect ps cs else None)"

text \<open>\<open>\s+\<close>: at least one white space character, then all that follow.\<close>

definition spaces1 :: "string \<Rightarrow> string option" where
  "spaces1 s = (case s of [] \<Rightarrow> None
     | c # cs \<Rightarrow> if is_space c then Some (dropWhile is_space cs) else None)"

text \<open>\<open>([^\]]+)\]\<close>: at least one character other than \<open>]\<close>, up to the first \<open>]\<close>.\<close>

definition bracket_body :: "string \<Rightarrow> (string \<times> string) option" where
  "bracket_body s =
     (let k = takeWhile (\<lambda>c. c \<noteq> CHR '']'') s; r = dropWhile (\<lambda>c. c \<noteq> CHR '']'') s
      in if k \<noteq> [] \<and> r \<noteq> [] then Some (k, tl r) else None)"

text \<open>
  \<open>(.*)$\<close>: the dot matches no line feed, and \<open>$\<close> matches at the end of the string
  or before a line feed that ends it.
\<close>

definition rest_of_line :: "string \<Rightarrow> string option" where
  "rest_of_line r =
     (if LF \<notin> set r then Some r
      else if last r = LF \<and> LF \<notin> set (butlast r) then Some (butlast r)
      else None)"

definition TIMESTAMP_PATTERN_match :: "string \<Rightarrow> (string \<times> string \<times> string \<times> string) option" where
  "TIMESTAMP_PATTERN_match line = do {
     (mo, r1) \<leftarrow> take_digits2 line;
     r2 \<leftarrow> expect ''/'' r1;
     (dd, r3) \<leftarrow> take_digits2 r2;
     r4 \<leftarrow> spaces1 r3;
     (hh, r5) \<leftarrow> take_digits2 r4;
     r6 \<leftarrow> expect '':'' r5;
     (mi, r7) \<leftarrow> take_digits2 r6;
     r8 \<leftarrow> expect '':'' r7;
     (ss, r9) \<leftarrow> take_digits2 r8;
     r10 \<leftarrow> spaces1 r9;
     r11 \<leftarrow> expect ''UTC'' r10;
     r12 \<leftarrow> spaces1 r11;
     r13 \<leftarrow> expect ''['' r12;
     (kind, r14) \<leftarrow> bracket_body r13;
     r15 \<leftarrow> spaces1 r14;
     content_line \<leftarrow> rest_of_line r15;
     Some (mo @ ''/'' @ dd, hh @ '':'' @ mi @ '':'' @ ss, kind, content_line)
   }"

section \<open>Records\<close>

text \<open>
  A \<open>datetime\<close> in UTC. Two of them compare by their fields, year first.
\<close>

record datetime =
  year :: nat
  month :: nat
  day :: nat
  hour :: nat
  minute :: nat
  second :: nat
  microsecond :: nat

definition dt_key :: "datetime \<Rightarrow> nat \<times> nat \<times> nat \<times> nat \<times> nat \<times> nat \<times> nat" where
  "dt_key t = (year t, month t, day t, hour t, minute t, second t, microsecond t)"

definition is_leap :: "nat \<Rightarrow> bool" where
  "is_leap y \<longleftrightarrow> y mod 4 = 0 \<and> (y mod 100 \<noteq> 0 \<or> y mod 400 = 0)"

definition days_in_month :: "nat \<Rightarrow> nat \<Rightarrow> nat" where
  "days_in_month y m =
     (if m = 2 then (if is_leap y then 29 else 28)
      else if m \<in> {4, 6, 9, 11} then 30 else 31)"

text \<open>
  The constructor \<open>datetime(year, month, day, hour, minute, second, tzinfo=utc)\<close>: it
  raises \<open>ValueError\<close> (here \<open>None\<close>) when a field is out of range.
\<close>

definition mk_datetime :: "nat \<Rightarrow> nat \<Rightarrow> nat \<Rightarrow> nat \<Rightarrow> nat \<Rightarrow> nat \<Rightarrow> datetime option" where
  "mk_datetime y mo d h mi s =
     (if 1 \<le> y \<and> y \<le> 9999 \<and> 1 \<le> mo \<and> mo \<le> 12 \<and> 1 \<le> d \<and> d \<le> days_in_month y mo
         \<and> h \<le> 23 \<and> mi \<le> 59 \<and> s \<le> 59
      then Some \<lparr>year = y, month = mo, day = d, hour = h, minute = mi, second = s,
                 microsecond = 0\<rparr>
      else None)"

record LogEntry =
  timestamp :: datetime
  entry_type :: string
  content :: "string list"
  source_file :: string
  ip_address :: "string option"
  date_folder :: "string option"

section \<open>LogEntry.format\<close>

definition digit_char :: "nat \<Rightarrow> char" where
  "digit_char d = ''0123456789'' ! d"

text \<open>\<open>%m\<close>, \<open>%d\<close>, \<open>%H\<close>, \<open>%M\<close>, \<open>%S\<close> of \<open>strftime\<close>: two digits, for a field below 100.\<close>

definition pad2 :: "nat \<Rightarrow> string" where
  "pad2 n = [digit_char (n div 10), digit_char (n mod 10)]"

definition strftime :: "datetime \<Rightarrow> string" where
  "strftime t = pad2 (month t) @ ''/'' @ pad2 (day t) @ '' '' @
     pad2 (hour t) @ '':'' @ pad2 (minute t) @ '':'' @ pad2 (second t)"

text \<open>\<open>'\n'.join(lines)\<close>.\<close>

fun join_lines :: "string list \<Rightarrow> string" where
  "join_lines [] = []"
| "join_lines [l] = l"
| "join_lines (l # m # ls) = l @ [LF] @ join_lines (m # ls)"

definition format :: "LogEntry \<Rightarrow> string" where
  "format e =
     (case content e of
        [] \<Rightarrow> strftime (timestamp e) @ '' UTC ['' @ entry_type e @ ''] (empty)'' @ [LF]
      | c # cs \<Rightarrow>
          join_lines ((strftime (timestamp e) @ '' UTC ['' @ entry_type e @ ''] '' @ c) # cs)
            @ [LF])"

section \<open>LogParser\<close>

text \<open>
  The parser prints its warnings; the model returns the printed lines, in order, beside
  the entries. The calendar year of \<open>datetime.now()\<close> is the argument \<open>now_year\<close>.
\<close>

definition date_folder_invalid :: "string option \<Rightarrow> bool" where
  "date_folder_invalid df =
     (case df of None \<Rightarrow> True | Some s \<Rightarrow> s = [] \<or> length s \<noteq> 6 \<or> \<not> isdigit s)"

definition invalid_date_folder_warning :: "string option \<Rightarrow> string \<Rightarrow> string" where
  "invalid_date_folder_warning df src =
     ''[!] Warning: Invalid date_folder '' @ [CHR 0x27] @
     (case df of None \<Rightarrow> ''None'' | Some s \<Rightarrow> s) @ [CHR 0x27] @ '' in '' @ src @
     '', using current year''"

definition malformed_warning :: "string \<Rightarrow> string \<Rightarrow> string" where
  "malformed_warning src line =
     ''[!] Warning: Skipping malformed timestamp in '' @ src @ '': '' @ take 80 line"

definition orphan_warning :: "string \<Rightarrow> string \<Rightarrow> string" where
  "orphan_warning src line =
     ''[!] Warning: Orphaned line in '' @ src @ '': '' @ take 50 line"

text \<open>
  Lines 266 to 271: the base year and what is printed while finding it. The conversion
  \<open>int(date_folder[:2])\<close> is outside every \<open>try\<close>, so its \<open>ValueError\<close> leaves the call.
\<close>

definition base_year_of :: "nat \<Rightarrow> string option \<Rightarrow> string \<Rightarrow> error + (nat \<times> string list)" where
  "base_year_of now_year df src =
     (case (if date_folder_invalid df then None else df) of
        None \<Rightarrow> Inr (now_year, [invalid_date_folder_warning df src])
      | Some s \<Rightarrow>
          (case py_int (take 2 s) of
             None \<Rightarrow> Inl ValueError
           | Some year_suffix \<Rightarrow> Inr (2000 + year_suffix, [])))"

text \<open>
  The body of the \<open>try\<close>: both \<open>split\<close>s, the tuple assignments, the five \<open>int\<close>s and the
  constructor. Every \<open>ValueError\<close> among them is caught, so the result is an option.
\<close>

definition build_timestamp :: "nat \<Rightarrow> string \<Rightarrow> string \<Rightarrow> datetime option" where
  "build_timestamp base_year mm_dd time_str =
     (case map py_int (split (CHR ''/'') mm_dd) of
        [Some mo, Some d] \<Rightarrow>
          (case map py_int (split (CHR '':'') time_str) of
             [Some h, Some mi, Some s] \<Rightarrow> mk_datetime base_year mo d h mi s
           | _ \<Rightarrow> None)
      | _ \<Rightarrow> None)"

type_synonym parse_state = "LogEntry list \<times> LogEntry option \<times> string list"

text \<open>One turn of the loop over the lines: the entries, the open entry, the output.\<close>

definition parse_line ::
  "nat \<Rightarrow> string option \<Rightarrow> string \<Rightarrow> string option \<Rightarrow> parse_state \<Rightarrow> string \<Rightarrow> parse_state" where
  "parse_line base_year df src ip st line =
     (case st of (entries, current_entry, out) \<Rightarrow>
       (case TIMESTAMP_PATTERN_match line of
          Some (mm_dd, time_str, kind, content_line) \<Rightarrow>
            (let entries' = (case current_entry of None \<Rightarrow> entries | Some e \<Rightarrow> entries @ [e])
             in case build_timestamp base_year mm_dd time_str of
                  Some ts \<Rightarrow>
                    (entries',
                     Some \<lparr>timestamp = ts, entry_type = kind, content = [content_line],
                           source_file = src, ip_address = ip, date_folder = df\<rparr>,
                     out)
                | None \<Rightarrow> (entries', None, out @ [malformed_warning src line]))
        | None \<Rightarrow>
            (case current_entry of
               Some e \<Rightarrow> (entries, Some (e\<lparr>content := content e @ [line]\<rparr>), out)
             | None \<Rightarrow>
                 (entries, None,
                  if strip line \<noteq> [] then out @ [orphan_warning src line] else out))))"

definition finish :: "parse_state \<Rightarrow> LogEntry list \<times> string list" where
  "finish st =
     (case st of (entries, current_entry, out) \<Rightarrow>
        (case current_entry of None \<Rightarrow> (entries, out) | Some e \<Rightarrow> (entries @ [e], out)))"

definition parse_beacon_log ::
  "nat \<Rightarrow> string \<Rightarrow> string option \<Rightarrow> string \<Rightarrow> string option
     \<Rightarrow> error + (LogEntry list \<times> string list)" where
  "parse_beacon_log now_year text df src ip =
     (if text = [] then Inr ([], [])
      else case base_year_of now_year df src of
             Inl err \<Rightarrow> Inl err
           | Inr (base_year, out) \<Rightarrow>
               Inr (finish (foldl (parse_line base_year df src ip) ([], None, out)
                                  (splitlines text))))"

definition parse_system_log ::
  "nat \<Rightarrow> string \<Rightarrow> string option \<Rightarrow> string \<Rightarrow> error + (LogEntry list \<times> string list)" where
  "parse_system_log now_year text df src = parse_beacon_log now_year text df src None"

text \<open>The date folder the specification calls valid: exactly six ASCII digits.\<close>

definition valid_date_folder :: "string option \<Rightarrow> bool" where
  "valid_date_folder df =
     (case df of None \<Rightarrow> False | Some s \<Rightarrow> length s = 6 \<and> list_all is_decimal s)"

text \<open>Every entry of a parser state, emitted or open, carries the entity \<open>ip\<close>.\<close>

definition all_ip :: "string option \<Rightarrow> parse_state \<Rightarrow> bool" where
  "all_ip ip st =
     (case st of (entries, cur, out) \<Rightarrow>
        list_all (\<lambda>e. ip_address e = ip) entries \<and>
        (case cur of None \<Rightarrow> True | Some e \<Rightarrow> ip_address e = ip))"

text \<open>
  The entries the parser returns when its loop, in state \<open>st\<close>, still has the lines
  \<open>ls\<close> to read.
\<close>

definition entries_after ::
  "nat \<Rightarrow> string option \<Rightarrow> string \<Rightarrow> string option \<Rightarrow> parse_state \<Rightarrow> string list
     \<Rightarrow> LogEntry list" where
  "entries_after base_year df src ip st ls =
     fst (finish (foldl (parse_line base_year df src ip) st ls))"

section \<open>LogAggregator\<close>

text \<open>
  A \<open>dict\<close> is a list of key and value pairs in insertion order, its keys distinct.
  \<open>entries.sort(key=lambda e: e.timestamp)\<close> is a stable sort; \<open>sort_key\<close> is the
  stable insertion sort of the library, and there is one stable sorted arrangement of a
  list, so both give the same list.
\<close>

definition by_timestamp :: "LogEntry list \<Rightarrow> LogEntry list" where
  "by_timestamp entries = sort_key (\<lambda>e. dt_key (timestamp e)) entries"

definition aggregate_by_ip :: "(string \<times> LogEntry list) list \<Rightarrow> (string \<times> LogEntry list) list" where
  "aggregate_by_ip entries_by_ip = map (\<lambda>(ip, entries). (ip, by_timestamp entries)) entries_by_ip"

text \<open>\<open>aggregated[key].append(entry)\<close> on a \<open>defaultdict(list)\<close>.\<close>

fun append_to :: "'k \<Rightarrow> 'v \<Rightarrow> ('k \<times> 'v list) list \<Rightarrow> ('k \<times> 'v list) list" where
  "append_to key v [] = [(key, [v])]"
| "append_to key v ((k, vs) # rest) =
     (if k = key then (k, vs @ [v]) # rest else (k, vs) # append_to key v rest)"

text \<open>\<open>if entry.date_folder:\<close> holds for a string that is not empty.\<close>

definition add_entry ::
  "string \<Rightarrow> ((string \<times> string) \<times> LogEntry list) list \<Rightarrow> LogEntry
     \<Rightarrow> ((string \<times> string) \<times> LogEntry list) list" where
  "add_entry ip aggregated entry =
     (case date_folder entry of
        None \<Rightarrow> aggregated
      | Some d \<Rightarrow> if d = [] then aggregated else append_to (ip, d) entry aggregated)"

definition group_by_ip_and_date ::
  "(string \<times> LogEntry list) list \<Rightarrow> ((string \<times> string) \<times> LogEntry list) list" where
  "group_by_ip_and_date entries_by_ip =
     foldl (\<lambda>aggregated (ip, entries). foldl (add_entry ip) aggregated entries) [] entries_by_ip"

definition aggregate_by_ip_and_date ::
  "(string \<times> LogEntry list) list \<Rightarrow> ((string \<times> string) \<times> LogEntry list) list" where
  "aggregate_by_ip_and_date entries_by_ip =
     map (\<lambda>(key, entries). (key, by_timestamp entries)) (group_by_ip_and_date entries_by_ip)"

text \<open>The entries of one entity, none for an entity that is no key.\<close>

definition entries_of :: "(string \<times> LogEntry list) list \<Rightarrow> string \<Rightarrow> LogEntry list" where
  "entries_of m ip = (case map_of m ip of None \<Rightarrow> [] | Some es \<Rightarrow> es)"

text \<open>The list a key holds in a dictionary of lists, empty for a key that is missing.\<close>

definition group_of :: "('k \<times> 'v list) list \<Rightarrow> 'k \<Rightarrow> 'v list" where
  "group_of agg key = (case map_of agg key of None \<Rightarrow> [] | Some vs \<Rightarrow> vs)"

definition no_empty_group :: "('k \<times> 'v list) list \<Rightarrow> bool" where
  "no_empty_group agg = list_all (\<lambda>(key, vs). vs \<noteq> []) agg"

definition agg_ok :: "((string \<times> string) \<times> LogEntry list) list \<Rightarrow> bool" where
  "agg_ok agg \<longleftrightarrow> distinct (map fst agg) \<and> no_empty_group agg"

text \<open>The entries, in their order, whose date folder is the string \<open>d\<close>.\<close>

definition dated :: "string \<Rightarrow> LogEntry list \<Rightarrow> LogEntry list" where
  "dated d entries = filter (\<lambda>e. date_folder e = Some d) entries"

section \<open>LogWriter\<close>

text \<open>
  The file system is the writer's environment: whether the output directory can be made,
  and for each file name whether opening it and writing to it succeeds. What the writer
  does is a list of events: a file written with its whole text, or a failure reported.
\<close>

record io_env =
  mkdir_ok :: bool
  write_ok :: "string \<Rightarrow> bool"

datatype event = Wrote string string | WriteError string

definition write_group :: "io_env \<Rightarrow> string \<Rightarrow> LogEntry list \<Rightarrow> nat \<times> event list \<Rightarrow> nat \<times> event list" where
  "write_group env name entries st =
     (case st of (files_written, events) \<Rightarrow>
        if entries = [] then (files_written, events)
        else if write_ok env name
          then (files_written + 1, events @ [Wrote name (concat (map format entries))])
          else (files_written, events @ [WriteError name]))"

text \<open>The file names \<open>f"{ip}-Complete.log"\<close> and \<open>f"{ip}-{date_folder}.log"\<close>.\<close>

definition complete_log_name :: "string \<Rightarrow> string" where
  "complete_log_name ip = ip @ ''-Complete.log''"

definition daily_log_name :: "string \<times> string \<Rightarrow> string" where
  "daily_log_name key = (case key of (ip, d) \<Rightarrow> ip @ ''-'' @ d @ ''.log'')"

definition write_complete_logs ::
  "io_env \<Rightarrow> (string \<times> LogEntry list) list \<Rightarrow> error + (nat \<times> event list)" where
  "write_complete_logs env aggregated_entries =
     (if \<not> mkdir_ok env then Inl OSError
      else Inr (foldl (\<lambda>st (ip, entries). write_group env (complete_log_name ip) entries st)
                  (0, []) aggregated_entries))"

definition write_daily_logs ::
  "io_env \<Rightarrow> ((string \<times> string) \<times> LogEntry list) list \<Rightarrow> error + (nat \<times> event list)" where
  "write_daily_logs env aggregated_entries =
     (if \<not> mkdir_ok env then Inl OSError
      else Inr (foldl (\<lambda>st (key, entries). write_group env (daily_log_name key) entries st)
                  (0, []) aggregated_entries))"

text \<open>What the loop of a writer does for one group that is not empty.\<close>

definition group_event :: "io_env \<Rightarrow> string \<Rightarrow> LogEntry list \<Rightarrow> event" where
  "group_event env name entries =
     (if write_ok env name then Wrote name (concat (map format entries)) else WriteError name)"

section \<open>Entries for the examples\<close>

text \<open>
  An entry of 15 August 2023, 10:00 and \<open>s\<close> seconds, with one body line and the given
  date folder.
\<close>

definition entry_at :: "nat \<Rightarrow> string \<Rightarrow> string option \<Rightarrow> LogEntry" where
  "entry_at s body df =
     \<lparr>timestamp = \<lparr>year = 2023, month = 8, day = 15, hour = 10, minute = 0, second = s,
                    microsecond = 0\<rparr>,
      entry_type = ''input'', content = [body], source_file = ''beacon_1.log'',
      ip_address = Some ''10.0.0.5'', date_folder = df\<rparr>"

section \<open>The header grammar of the specification\<close>

text \<open>
  The specification's header line, \<^verbatim>\<open>MM/DD HH:MM:SS UTC [kind] <free text>\<close>: the
  five numbers padded to two digits, single spaces, the kind in brackets, the free text.
  It is written from the specification, to be set against the pattern of the source.
\<close>

definition header_line :: "nat \<Rightarrow> nat \<Rightarrow> nat \<Rightarrow> nat \<Rightarrow> nat \<Rightarrow> string \<Rightarrow> string \<Rightarrow> string" where
  "header_line mo d h mi s kind free =
     pad2 mo @ ''/'' @ pad2 d @ '' '' @ pad2 h @ '':'' @ pad2 mi @ '':'' @ pad2 s @
     '' UTC ['' @ kind @ ''] '' @ free"

section \<open>Evaluation\<close>

lemmas char_defs = LF_def CR_def is_space_def is_linebreak_def is_decimal_def
  is_digit_char_def isdigit_def

lemmas match_defs = TIMESTAMP_PATTERN_match_def spaces1_def bracket_body_def rest_of_line_def

lemmas parse_defs = parse_beacon_log_def base_year_of_def date_folder_invalid_def py_int_def
  digit_val_def build_timestamp_def split_def mk_datetime_def days_in_month_def is_leap_def
  parse_line_def finish_def splitlines_def strip_def malformed_warning_def orphan_warning_def
  invalid_date_folder_warning_def

lemma foldl_invariant:
  assumes "P s" and "\<And>s x. P s \<Longrightarrow> P (f s x)"
  shows "P (foldl f s xs)"
  using assms(1) by (induction xs arbitrary: s) (simp_all add: assms(2))

section \<open>The parser on the specification's example\<close>

text \<open>
  C3. The two-record example of the specification, parsed with date folder 230815 and
  entity 10.0.0.5, gives exactly two entries in this order: 2023-08-15 10:00:01, kind
  input, body whoami and DOMAIN\user; then 2023-08-15 10:00:05, kind output, body the
  empty string and administrator. Nothing is printed. (The doubled backslash of the
  specification is the escape for one backslash, code point 5C.)
\<close>

theorem parse_example_two_records:
  "parse_beacon_log now_year
     (''08/15 10:00:01 UTC [input] whoami'' @ [LF] @ ''DOMAIN'' @ [CHR 0x5C] @ ''user'' @ [LF] @
      ''08/15 10:00:05 UTC [output] '' @ [LF] @ ''administrator'' @ [LF])
     (Some ''230815'') src (Some ''10.0.0.5'') =
   Inr ([\<lparr>timestamp = \<lparr>year = 2023, month = 8, day = 15, hour = 10, minute = 0,
                         second = 1, microsecond = 0\<rparr>,
          entry_type = ''input'', content = [''whoami'', ''DOMAIN'' @ [CHR 0x5C] @ ''user''],
          source_file = src, ip_address = Some ''10.0.0.5'', date_folder = Some ''230815''\<rparr>,
         \<lparr>timestamp = \<lparr>year = 2023, month = 8, day = 15, hour = 10, minute = 0,
                         second = 5, microsecond = 0\<rparr>,
          entry_type = ''output'', content = [[], ''administrator''],
          source_file = src, ip_address = Some ''10.0.0.5'', date_folder = Some ''230815''\<rparr>],
        [])"
  by (simp add: char_defs match_defs parse_defs)

theorem parse_example_two_records_witness:
  "map content (fst (projr (parse_beacon_log 2026
     (''08/15 10:00:01 UTC [input] whoami'' @ [LF] @ ''DOMAIN'' @ [CHR 0x5C] @ ''user'' @ [LF] @
      ''08/15 10:00:05 UTC [output] '' @ [LF] @ ''administrator'' @ [LF])
     (Some ''230815'') ''beacon_1.log'' (Some ''10.0.0.5'')))) =
   [[''whoami'', ''DOMAIN'' @ [CHR 0x5C] @ ''user''], [[], ''administrator'']]"
  using parse_example_two_records [of 2026 "''beacon_1.log''"] by simp

section \<open>System logs\<close>

lemma parse_line_all_ip: "all_ip ip st \<Longrightarrow> all_ip ip (parse_line y df src ip st line)"
  by (cases st) (auto simp: all_ip_def parse_line_def Let_def split: option.splits prod.splits)

lemma finish_all_ip: "all_ip ip st \<Longrightarrow> list_all (\<lambda>e. ip_address e = ip) (fst (finish st))"
  by (cases st) (auto simp: all_ip_def finish_def split: option.splits)

lemma parse_beacon_log_ip:
  assumes "parse_beacon_log now_year text df src ip = Inr (es, ws)"
  shows "list_all (\<lambda>e. ip_address e = ip) es"
proof (cases "text = []")
  case True
  with assms show ?thesis by (simp add: parse_beacon_log_def)
next
  case False
  with assms obtain y out where
    es: "finish (foldl (parse_line y df src ip) ([], None, out) (splitlines text)) = (es, ws)"
    by (auto simp: parse_beacon_log_def split: sum.splits)
  have "all_ip ip (foldl (parse_line y df src ip) ([], None, out) (splitlines text))"
  proof (rule foldl_invariant)
    show "all_ip ip ([], None, out)" by (simp add: all_ip_def)
  next
    fix s x assume "all_ip ip s"
    then show "all_ip ip (parse_line y df src ip s x)" by (rule parse_line_all_ip)
  qed
  from finish_all_ip[OF this] es show ?thesis by simp
qed

text \<open>
  C9. For every text, date folder and source, \<open>parse_system_log\<close> returns what
  \<open>parse_beacon_log\<close> returns for an absent entity, the same entries and the same output
  or the same error; and every entry it returns has no entity.
\<close>

theorem parse_system_log_is_beacon_without_entity:
  "parse_system_log now_year text df src = parse_beacon_log now_year text df src None
   \<and> (\<forall>es ws. parse_system_log now_year text df src = Inr (es, ws)
         \<longrightarrow> (\<forall>e \<in> set es. ip_address e = None))"
  using parse_beacon_log_ip[where ip = None]
  by (auto simp: parse_system_log_def list_all_iff)

theorem parse_system_log_is_beacon_without_entity_witness:
  "parse_system_log 2026 ''08/15 10:00:01 UTC [x] y'' (Some ''230815'') ''events.log''
     = parse_beacon_log 2026 ''08/15 10:00:01 UTC [x] y'' (Some ''230815'') ''events.log'' None
   \<and> parse_system_log 2026 ''08/15 10:00:01 UTC [x] y'' (Some ''230815'') ''events.log''
     = Inr ([\<lparr>timestamp = \<lparr>year = 2023, month = 8, day = 15, hour = 10, minute = 0,
                           second = 1, microsecond = 0\<rparr>,
            entry_type = ''x'', content = [''y''], source_file = ''events.log'',
            ip_address = None, date_folder = Some ''230815''\<rparr>], [])"
  using parse_system_log_is_beacon_without_entity
    [of 2026 "''08/15 10:00:01 UTC [x] y''" "Some ''230815''" "''events.log''"]
  by (simp add: parse_system_log_def char_defs match_defs parse_defs)

section \<open>The base year\<close>

lemma valid_not_invalid: "valid_date_folder df \<Longrightarrow> \<not> date_folder_invalid df"
  by (cases df)
    (auto simp: valid_date_folder_def date_folder_invalid_def isdigit_def is_digit_char_def
      list_all_iff)

lemma base_year_of_clock:
  "\<not> date_folder_invalid df \<Longrightarrow> base_year_of n1 df src = base_year_of n2 df src"
  by (cases df) (simp_all add: base_year_of_def date_folder_invalid_def)

text \<open>The fallback: an absent, empty, wrongly long or non-digit date folder.\<close>

lemma base_year_of_fallback:
  "date_folder_invalid df \<Longrightarrow>
     base_year_of now_year df src = Inr (now_year, [invalid_date_folder_warning df src])"
  by (simp add: base_year_of_def)

text \<open>Six ASCII digits: the year is 2000 plus the first two, and nothing is printed.\<close>

lemma base_year_of_valid:
  assumes "valid_date_folder df"
  shows "\<exists>a b r. df = Some (a # b # r) \<and>
           base_year_of now_year df src = Inr (2000 + (10 * digit_val a + digit_val b), [])"
proof -
  from assms obtain s where s: "df = Some s" "length s = 6" "list_all is_decimal s"
    by (cases df) (auto simp: valid_date_folder_def)
  then obtain a b r where r: "s = a # b # r" by (cases s; cases "tl s") auto
  with s valid_not_invalid[OF assms] show ?thesis by (simp add: base_year_of_def py_int_def)
qed

text \<open>
  C6. A date folder that is not six ASCII digits is to give the warning and the current
  year. The date folder of six characters whose first two are the
  superscript digit two (code point B2) and whose last four are 0815 passes \<open>len\<close> and \<open>isdigit\<close>, so no warning is
  printed and no fallback taken; \<open>int\<close> then rejects the two superscripts, and the call
  ends with \<open>ValueError\<close> on any text that is not empty.
\<close>

theorem superscript_date_folder_raises:
  "parse_beacon_log now_year ''x''
     (Some [CHR 0xB2, CHR 0xB2, CHR ''0'', CHR ''8'', CHR ''1'', CHR ''5'']) src ip
   = Inl ValueError"
  by (simp add: parse_defs char_defs)

text \<open>
  C10. With a date folder of six ASCII digits, the parser's result is the same for any
  two years the clock may show: the clock is read only in the fallback.
\<close>

theorem parse_independent_of_clock:
  "valid_date_folder df \<Longrightarrow>
     parse_beacon_log now1 text df src ip = parse_beacon_log now2 text df src ip"
  using base_year_of_clock[OF valid_not_invalid, of df now1 src now2]
  by (simp add: parse_beacon_log_def)

theorem parse_independent_of_clock_witness:
  "valid_date_folder (Some ''230815'') \<and>
   parse_beacon_log 1999 ''08/15 10:00:01 UTC [x] y'' (Some ''230815'') ''f'' None =
   parse_beacon_log 2026 ''08/15 10:00:01 UTC [x] y'' (Some ''230815'') ''f'' None"
proof -
  have v: "valid_date_folder (Some ''230815'')"
    by (simp add: valid_date_folder_def is_decimal_def)
  show ?thesis
    using v parse_independent_of_clock
      [OF v, of 1999 "''08/15 10:00:01 UTC [x] y''" "''f''" None 2026]
    by simp
qed

text \<open>In the fallback the clock does show in the result.\<close>

lemma clock_shows_in_fallback:
  "parse_beacon_log 1999 ''08/15 10:00:01 UTC [x] y'' None ''f'' None \<noteq>
   parse_beacon_log 2026 ''08/15 10:00:01 UTC [x] y'' None ''f'' None"
  by (simp add: char_defs match_defs parse_defs)

section \<open>Malformed headers\<close>

lemma malformed_step:
  assumes "TIMESTAMP_PATTERN_match line = Some (mm_dd, time_str, kind, content_line)"
    and "build_timestamp base_year mm_dd time_str = None"
  shows "parse_line base_year df src ip (entries, current_entry, out) line =
        (entries @ (case current_entry of None \<Rightarrow> [] | Some e \<Rightarrow> [e]), None,
         out @ [malformed_warning src line])"
  using assms by (simp add: parse_line_def split: option.splits)

lemma malformed_example_match:
  "TIMESTAMP_PATTERN_match ''13/40 25:00:00 UTC [x] y''
     = Some (''13/40'', ''25:00:00'', ''x'', ''y'')"
  by (simp add: match_defs char_defs)

lemma malformed_example_ts: "build_timestamp y ''13/40'' ''25:00:00'' = None"
  by (simp add: build_timestamp_def split_def py_int_def digit_val_def mk_datetime_def char_defs)

lemma malformed_example_lines:
  "splitlines (''13/40 25:00:00 UTC [x] y'' @ [LF]) = [''13/40 25:00:00 UTC [x] y'']"
  by (simp add: splitlines_def char_defs)

lemma malformed_example:
  assumes "base_year_of now_year df src = Inr (y, w)"
  shows "parse_beacon_log now_year (''13/40 25:00:00 UTC [x] y'' @ [LF]) df src ip
     = Inr ([], w @ [malformed_warning src ''13/40 25:00:00 UTC [x] y''])"
  unfolding parse_beacon_log_def malformed_example_lines
  using assms malformed_step[OF malformed_example_match malformed_example_ts]
  by (simp add: finish_def)

text \<open>
  C5. On a line that matches the header pattern and whose numbers make no timestamp, the
  loop first appends the open entry, if there is one, to the entries, prints the warning
  with the first 80 characters of the line, makes no entry for the line and goes on with
  no open entry. The text of the one malformed header 13/40 25:00:00 gives no entry and,
  after what finding the base year printed, exactly the one malformed-timestamp warning.
\<close>

theorem malformed_header_emits_previous_and_warns:
  "(TIMESTAMP_PATTERN_match line = Some (mm_dd, time_str, kind, content_line)
      \<and> build_timestamp base_year mm_dd time_str = None \<longrightarrow>
      parse_line base_year df src ip (entries, current_entry, out) line =
        (entries @ (case current_entry of None \<Rightarrow> [] | Some e \<Rightarrow> [e]), None,
         out @ [''[!] Warning: Skipping malformed timestamp in '' @ src @ '': '' @ take 80 line]))
   \<and> (base_year_of now_year df src = Inr (y, w) \<longrightarrow>
      parse_beacon_log now_year (''13/40 25:00:00 UTC [x] y'' @ [LF]) df src ip
        = Inr ([], w @ [''[!] Warning: Skipping malformed timestamp in '' @ src @
                        '': 13/40 25:00:00 UTC [x] y'']))"
  using malformed_step[of line mm_dd time_str kind content_line base_year]
    malformed_example[of now_year df src y w]
  by (simp add: malformed_warning_def)

theorem malformed_header_emits_previous_and_warns_witness:
  "TIMESTAMP_PATTERN_match ''13/40 25:00:00 UTC [x] y''
     = Some (''13/40'', ''25:00:00'', ''x'', ''y'')
   \<and> build_timestamp 2023 ''13/40'' ''25:00:00'' = None
   \<and> parse_line 2023 (Some ''230815'') ''f'' None ([], None, []) ''13/40 25:00:00 UTC [x] y''
       = ([], None, [''[!] Warning: Skipping malformed timestamp in f: 13/40 25:00:00 UTC [x] y''])
   \<and> base_year_of 2026 (Some ''230815'') ''f'' = Inr (2023, [])
   \<and> parse_beacon_log 2026 (''13/40 25:00:00 UTC [x] y'' @ [LF]) (Some ''230815'') ''f'' None
       = Inr ([], [''[!] Warning: Skipping malformed timestamp in f: 13/40 25:00:00 UTC [x] y''])"
proof -
  have b: "base_year_of 2026 (Some ''230815'') ''f'' = Inr (2023, [])"
    by (simp add: base_year_of_def date_folder_invalid_def py_int_def digit_val_def char_defs)
  show ?thesis
    using malformed_example_match malformed_example_ts[of 2023] b
      malformed_header_emits_previous_and_warns
        [of "''13/40 25:00:00 UTC [x] y''" "''13/40''" "''25:00:00''" "''x''" "''y''" 2023
            "Some ''230815''" "''f''" None "[]" None "[]" 2026 2023 "[]"]
    by simp
qed

lemma parse_line_grows: "\<exists>more. fst (parse_line y df src ip st line) = fst st @ more"
  by (cases st) (auto simp: parse_line_def Let_def split: option.splits prod.splits)

lemma foldl_parse_line_grows:
  "\<exists>more. fst (foldl (parse_line y df src ip) st ls) = fst st @ more"
proof (induction ls arbitrary: st)
  case Nil
  show ?case by simp
next
  case (Cons l ls)
  obtain m1 where m1: "fst (parse_line y df src ip st l) = fst st @ m1"
    using parse_line_grows by blast
  obtain m2 where "fst (foldl (parse_line y df src ip) (parse_line y df src ip st l) ls)
      = fst (parse_line y df src ip st l) @ m2"
    using Cons.IH by blast
  with m1 show ?case by simp
qed

lemma finish_grows: "\<exists>more. fst (finish st) = fst st @ more"
  by (cases st) (auto simp: finish_def split: option.splits)

lemma entries_after_grows: "\<exists>more. entries_after y df src ip st ls = fst st @ more"
proof -
  obtain m1 where m1: "fst (foldl (parse_line y df src ip) st ls) = fst st @ m1"
    using foldl_parse_line_grows by blast
  obtain m2 where "fst (finish (foldl (parse_line y df src ip) st ls))
      = fst (foldl (parse_line y df src ip) st ls) @ m2"
    using finish_grows by blast
  with m1 show ?thesis by (simp add: entries_after_def)
qed

text \<open>
  C8, as stated, fails: an entry is open with the body lines x and more when the malformed
  header 13/40 25:00:00 arrives, and the entry is returned with both lines.
\<close>

theorem malformed_header_drops_prior_lines_counterexample:
  "parse_beacon_log 2026
     (''08/15 10:00:01 UTC [a] x'' @ [LF] @ ''more'' @ [LF] @
      ''13/40 25:00:00 UTC [x] y'' @ [LF])
     (Some ''230815'') ''f'' None =
   Inr ([\<lparr>timestamp = \<lparr>year = 2023, month = 8, day = 15, hour = 10, minute = 0,
                         second = 1, microsecond = 0\<rparr>,
          entry_type = ''a'', content = [''x'', ''more''],
          source_file = ''f'', ip_address = None, date_folder = Some ''230815''\<rparr>],
        [''[!] Warning: Skipping malformed timestamp in f: 13/40 25:00:00 UTC [x] y''])"
  by (simp add: char_defs match_defs parse_defs)

text \<open>
  C8, amended. When a header line with a malformed timestamp is met while an entry is
  open, the open entry is emitted as it stands, with every body line it has accumulated,
  and the malformed header line itself yields no entry: the loop goes on over the lines
  that follow from the state whose entries are those emitted before and then the open
  entry, with no entry open and the warning printed. So the entries returned are those
  the parser returns from that state, and they begin with the entries emitted before
  and the open entry.
\<close>

theorem open_entry_survives_malformed_header:
  assumes "TIMESTAMP_PATTERN_match line = Some (mm_dd, time_str, kind, content_line)"
    and "build_timestamp base_year mm_dd time_str = None"
  shows "foldl (parse_line base_year df src ip) (entries, Some e, out) (line # rest)
           = foldl (parse_line base_year df src ip)
               (entries @ [e], None, out @ [malformed_warning src line]) rest
     \<and> entries_after base_year df src ip (entries, Some e, out) (line # rest)
           = entries_after base_year df src ip
               (entries @ [e], None, out @ [malformed_warning src line]) rest
     \<and> (\<exists>more. entries_after base_year df src ip (entries, Some e, out) (line # rest)
           = entries @ [e] @ more)"
proof -
  have step: "foldl (parse_line base_year df src ip) (entries, Some e, out) (line # rest)
      = foldl (parse_line base_year df src ip)
          (entries @ [e], None, out @ [malformed_warning src line]) rest"
    using malformed_step[OF assms, of df src ip entries "Some e" out] by simp
  then have after: "entries_after base_year df src ip (entries, Some e, out) (line # rest)
      = entries_after base_year df src ip
          (entries @ [e], None, out @ [malformed_warning src line]) rest"
    by (simp only: entries_after_def)
  obtain more where "entries_after base_year df src ip
      (entries @ [e], None, out @ [malformed_warning src line]) rest = (entries @ [e]) @ more"
    using entries_after_grows
      [of base_year df src ip "(entries @ [e], None, out @ [malformed_warning src line])" rest]
    by auto
  with after have "entries_after base_year df src ip (entries, Some e, out) (line # rest)
      = entries @ [e] @ more" by simp
  with step after show ?thesis by blast
qed

theorem open_entry_survives_malformed_header_witness:
  "TIMESTAMP_PATTERN_match ''13/40 25:00:00 UTC [x] y''
     = Some (''13/40'', ''25:00:00'', ''x'', ''y'')
   \<and> build_timestamp 2023 ''13/40'' ''25:00:00'' = None
   \<and> entries_after 2023 (Some ''230815'') ''f'' None
        ([], Some \<lparr>timestamp = \<lparr>year = 2023, month = 8, day = 15, hour = 10, minute = 0,
                                  second = 1, microsecond = 0\<rparr>,
                   entry_type = ''a'', content = [''x'', ''more''], source_file = ''f'',
                   ip_address = None, date_folder = Some ''230815''\<rparr>, [])
        [''13/40 25:00:00 UTC [x] y'', ''tail''] =
       [\<lparr>timestamp = \<lparr>year = 2023, month = 8, day = 15, hour = 10, minute = 0,
                        second = 1, microsecond = 0\<rparr>,
         entry_type = ''a'', content = [''x'', ''more''], source_file = ''f'',
         ip_address = None, date_folder = Some ''230815''\<rparr>]"
proof -
  have m: "TIMESTAMP_PATTERN_match ''13/40 25:00:00 UTC [x] y''
      = Some (''13/40'', ''25:00:00'', ''x'', ''y'')"
    by (simp add: match_defs char_defs)
  have b: "build_timestamp 2023 ''13/40'' ''25:00:00'' = None"
    by (simp add: build_timestamp_def split_def py_int_def digit_val_def mk_datetime_def
        char_defs)
  have t: "TIMESTAMP_PATTERN_match ''tail'' = None"
    by (simp add: match_defs char_defs)
  have r: "entries_after 2023 (Some ''230815'') ''f'' None (es, None, out) [''tail''] = es"
    for es out
    by (simp add: entries_after_def parse_line_def finish_def t)
  show ?thesis
    using m b open_entry_survives_malformed_header
      [OF m b, of "Some ''230815''" "''f''" None "[]" _ "[]" "[''tail'']"]
    by (simp add: r)
qed

section \<open>Sorting by timestamp\<close>

lemma dt_key_inj: "dt_key (a::datetime) = dt_key b \<longleftrightarrow> a = b"
  by (cases a; cases b) (auto simp: dt_key_def)

lemma filter_eq_appendD:
  "filter P ys = as @ bs \<Longrightarrow> \<exists>us vs. ys = us @ vs \<and> filter P us = as \<and> filter P vs = bs"
proof (induction ys arbitrary: as)
  case Nil
  then show ?case by simp
next
  case (Cons y ys)
  show ?case
  proof (cases "P y")
    case False
    with Cons.prems have "filter P ys = as @ bs" by simp
    from Cons.IH[OF this] obtain us vs where "ys = us @ vs" "filter P us = as" "filter P vs = bs" by blast
    with False have "y # ys = (y # us) @ vs \<and> filter P (y # us) = as \<and> filter P vs = bs" by simp
    then show ?thesis by blast
  next
    case True
    show ?thesis
    proof (cases as)
      case Nil
      with Cons.prems have "y # ys = [] @ (y # ys) \<and> filter P [] = as \<and> filter P (y # ys) = bs" by simp
      then show ?thesis by blast
    next
      case (Cons a as')
      with True Cons.prems have ya: "y = a" and "filter P ys = as' @ bs" by simp_all
      from Cons.IH[OF this(2)] obtain us vs where "ys = us @ vs" "filter P us = as'" "filter P vs = bs" by blast
      with True ya Cons have "y # ys = (y # us) @ vs \<and> filter P (y # us) = as \<and> filter P vs = bs" by simp
      then show ?thesis by blast
    qed
  qed
qed

lemma filter_order_preserved:
  assumes eq: "filter P ys = filter P xs" and ij: "i < j" "j < length xs"
    and Pi: "P (xs ! i)" and Pj: "P (xs ! j)"
  shows "\<exists>i' j'. i' < j' \<and> j' < length ys \<and> ys ! i' = xs ! i \<and> ys ! j' = xs ! j"
proof -
  define a where "a = take i xs"
  define b where "b = take (j - Suc i) (drop (Suc i) xs)"
  define c where "c = drop (Suc j) xs"
  have i: "i < length xs" using ij by simp
  have x1: "xs = a @ xs ! i # drop (Suc i) xs"
    unfolding a_def using i by (rule id_take_nth_drop)
  have len: "j - Suc i < length (drop (Suc i) xs)" using ij by simp
  have n: "drop (Suc i) xs ! (j - Suc i) = xs ! j" using ij by simp
  have "Suc (j - Suc i) + Suc i = Suc j" using ij by simp
  then have d: "drop (Suc (j - Suc i)) (drop (Suc i) xs) = c"
    unfolding c_def drop_drop by simp
  have x2: "drop (Suc i) xs = b @ xs ! j # c"
    using id_take_nth_drop[OF len] unfolding n d b_def .
  have xs: "xs = a @ xs ! i # b @ xs ! j # c"
    using x1 unfolding x2 .
  have "filter P xs = filter P a @ (xs ! i # filter P b @ xs ! j # filter P c)"
    by (subst xs) (simp add: Pi Pj)
  with eq have "filter P ys = filter P a @ (xs ! i # filter P b @ xs ! j # filter P c)" by simp
  from filter_eq_appendD[OF this] obtain u1 v1 where
    1: "ys = u1 @ v1" "filter P v1 = xs ! i # filter P b @ xs ! j # filter P c" by blast
  from filter_eq_ConsD[OF 1(2)] obtain u2 v2 where
    2: "v1 = u2 @ xs ! i # v2" "filter P b @ xs ! j # filter P c = filter P v2" by blast
  from filter_eq_appendD[OF 2(2)[symmetric]] obtain u3 v3 where
    3: "v2 = u3 @ v3" "filter P v3 = xs ! j # filter P c" by blast
  from filter_eq_ConsD[OF 3(2)] obtain u4 v4 where
    4: "v3 = u4 @ xs ! j # v4" by blast
  have ys: "ys = (u1 @ u2) @ xs ! i # (u3 @ u4) @ xs ! j # v4"
    using 1(1) 2(1) 3(1) 4 by simp
  let ?i = "length (u1 @ u2)" and ?j = "length (u1 @ u2) + Suc (length (u3 @ u4))"
  have "ys ! ?i = xs ! i" by (subst ys) (simp only: nth_append_length)
  moreover have "ys ! ?j = xs ! j"
    by (subst ys) (simp add: nth_append nth_Cons')
  moreover have "?i < ?j" by simp
  moreover have "?j < length ys" by (subst ys) simp
  ultimately show ?thesis by blast
qed

lemma by_timestamp_stable:
  "filter (\<lambda>e. timestamp e = t) (by_timestamp xs) = filter (\<lambda>e. timestamp e = t) xs"
  using sort_key_stable[of "\<lambda>e. dt_key (timestamp e)" "dt_key t" xs]
  by (simp add: by_timestamp_def dt_key_inj)

lemma by_timestamp_sorted: "sorted (map (\<lambda>e. dt_key (timestamp e)) (by_timestamp xs))"
  by (simp add: by_timestamp_def)

lemma by_timestamp_mset: "mset (by_timestamp xs) = mset xs"
  by (simp add: by_timestamp_def)

lemma by_timestamp_order:
  assumes "i < j" "j < length xs" "timestamp (xs ! i) = timestamp (xs ! j)"
  shows "\<exists>i' j'. i' < j' \<and> j' < length (by_timestamp xs) \<and> by_timestamp xs ! i' = xs ! i \<and> by_timestamp xs ! j' = xs ! j"
  using filter_order_preserved[OF by_timestamp_stable[of "timestamp (xs ! j)" xs] assms(1,2)] assms(3)
  by simp

lemma map_of_aggregate_by_ip: "map_of (aggregate_by_ip m) ip = map_option by_timestamp (map_of m ip)"
  unfolding aggregate_by_ip_def by (simp add: map_of_map)

lemma keys_aggregate_by_ip: "map fst (aggregate_by_ip m) = map fst m"
  by (induction m) (auto simp: aggregate_by_ip_def)

text \<open>
  C1. \<open>aggregate_by_ip\<close> returns the mapping with the same keys in the same order, and
  for each entity the entries it had, sorted ascending by timestamp (the fields compared
  year first). The sort is stable: the entries of any one timestamp stand in the output
  in their input order, and so two entries of equal timestamp, one before the other in
  the input, are found in the output at two positions in the same order.
\<close>

theorem aggregate_by_ip_sorted_stable:
  "map fst (aggregate_by_ip m) = map fst m \<and>
   (map_of m ip = Some xs \<longrightarrow>
     (\<exists>ys. map_of (aggregate_by_ip m) ip = Some ys
        \<and> sorted (map (\<lambda>e. dt_key (timestamp e)) ys)
        \<and> mset ys = mset xs
        \<and> (\<forall>t. filter (\<lambda>e. timestamp e = t) ys = filter (\<lambda>e. timestamp e = t) xs)
        \<and> (\<forall>i j. i < j \<and> j < length xs \<and> timestamp (xs ! i) = timestamp (xs ! j) \<longrightarrow>
             (\<exists>i' j'. i' < j' \<and> j' < length ys \<and> ys ! i' = xs ! i \<and> ys ! j' = xs ! j))))"
proof -
  have "map_of m ip = Some xs \<Longrightarrow> map_of (aggregate_by_ip m) ip = Some (by_timestamp xs)"
    by (simp add: map_of_aggregate_by_ip)
  then show ?thesis
    using keys_aggregate_by_ip[of m] by_timestamp_sorted[of xs] by_timestamp_mset[of xs]
      by_timestamp_stable[of _ xs] by_timestamp_order[of _ _ xs]
    by blast
qed


theorem aggregate_by_ip_sorted_stable_witness:
  "map_of [(''10.0.0.5'', [entry_at 5 ''c'' None, entry_at 1 ''a'' None, entry_at 1 ''b'' None])] ''10.0.0.5''
     = Some [entry_at 5 ''c'' None, entry_at 1 ''a'' None, entry_at 1 ''b'' None]
   \<and> aggregate_by_ip [(''10.0.0.5'', [entry_at 5 ''c'' None, entry_at 1 ''a'' None, entry_at 1 ''b'' None])]
     = [(''10.0.0.5'', [entry_at 1 ''a'' None, entry_at 1 ''b'' None, entry_at 5 ''c'' None])]
   \<and> (\<exists>ys. map_of (aggregate_by_ip [(''10.0.0.5'', [entry_at 5 ''c'' None, entry_at 1 ''a'' None, entry_at 1 ''b'' None])]) ''10.0.0.5'' = Some ys
         \<and> sorted (map (\<lambda>e. dt_key (timestamp e)) ys))"
proof -
  have h: "map_of [(''10.0.0.5'', [entry_at 5 ''c'' None, entry_at 1 ''a'' None, entry_at 1 ''b'' None])] ''10.0.0.5''
     = Some [entry_at 5 ''c'' None, entry_at 1 ''a'' None, entry_at 1 ''b'' None]" by simp
  have e: "aggregate_by_ip [(''10.0.0.5'', [entry_at 5 ''c'' None, entry_at 1 ''a'' None, entry_at 1 ''b'' None])]
     = [(''10.0.0.5'', [entry_at 1 ''a'' None, entry_at 1 ''b'' None, entry_at 5 ''c'' None])]"
    by (simp add: aggregate_by_ip_def by_timestamp_def entry_at_def dt_key_def)
  from aggregate_by_ip_sorted_stable[of "[(''10.0.0.5'', [entry_at 5 ''c'' None, entry_at 1 ''a'' None, entry_at 1 ''b'' None])]" "''10.0.0.5''"
      "[entry_at 5 ''c'' None, entry_at 1 ''a'' None, entry_at 1 ''b'' None]"] h e
  show ?thesis by blast
qed


section \<open>Writing the groups\<close>

lemma write_group_pair:
  "write_group env nm es (n, evs) =
     (if es = [] then (n, evs)
      else if write_ok env nm then (Suc n, evs @ [Wrote nm (concat (map format es))])
      else (n, evs @ [WriteError nm]))"
  by (simp add: write_group_def)

lemma write_loop:
  "foldl (\<lambda>st (key, entries). write_group env (name key) entries st) (n, evs) groups =
     (n + length (filter (\<lambda>(key, entries). entries \<noteq> [] \<and> write_ok env (name key)) groups),
      evs @ map (\<lambda>(key, entries). group_event env (name key) entries)
              (filter (\<lambda>(key, entries). entries \<noteq> []) groups))"
proof (induction groups arbitrary: n evs)
  case Nil
  show ?case by simp
next
  case (Cons g groups)
  obtain key entries where g: "g = (key, entries)" by (cases g)
  show ?case
    unfolding g by (simp add: write_group_pair Cons.IH group_event_def)
qed

text \<open>
  C7. When the output directory can be made, each writer goes through all the groups:
  a group with no entries is passed over; for any other group either its file is written
  with the entries rendered in their order, or the failure is reported and that group
  alone is skipped. The number returned is the number of files written. So of two
  groups with entries, the first writable and the second not, the first is written and
  the call returns 1.
\<close>

theorem write_failure_skips_one_group:
  "mkdir_ok env \<Longrightarrow>
     write_complete_logs env groups =
       Inr (length (filter (\<lambda>(ip, entries). entries \<noteq> [] \<and> write_ok env (complete_log_name ip)) groups),
            map (\<lambda>(ip, entries). group_event env (complete_log_name ip) entries)
              (filter (\<lambda>(ip, entries). entries \<noteq> []) groups))
   \<and> write_daily_logs env daily =
       Inr (length (filter (\<lambda>(key, entries). entries \<noteq> [] \<and> write_ok env (daily_log_name key)) daily),
            map (\<lambda>(key, entries). group_event env (daily_log_name key) entries)
              (filter (\<lambda>(key, entries). entries \<noteq> []) daily))
   \<and> (es1 \<noteq> [] \<and> es2 \<noteq> [] \<and> write_ok env (complete_log_name ip1) \<and> \<not> write_ok env (complete_log_name ip2) \<longrightarrow>
        write_complete_logs env [(ip1, es1), (ip2, es2)] =
          Inr (1, [Wrote (complete_log_name ip1) (concat (map format es1)), WriteError (complete_log_name ip2)]))
   \<and> (es1 \<noteq> [] \<and> es2 \<noteq> [] \<and> write_ok env (daily_log_name k1) \<and> \<not> write_ok env (daily_log_name k2) \<longrightarrow>
        write_daily_logs env [(k1, es1), (k2, es2)] =
          Inr (1, [Wrote (daily_log_name k1) (concat (map format es1)), WriteError (daily_log_name k2)]))"
  by (simp add: write_complete_logs_def write_daily_logs_def write_loop group_event_def write_group_pair)

theorem write_failure_skips_one_group_witness:
  "mkdir_ok \<lparr>mkdir_ok = True, write_ok = (\<lambda>name. name \<noteq> ''10.0.0.6-Complete.log'')\<rparr>
   \<and> write_complete_logs \<lparr>mkdir_ok = True, write_ok = (\<lambda>name. name \<noteq> ''10.0.0.6-Complete.log'')\<rparr>
       [(''10.0.0.5'', [entry_at 1 ''whoami'' None]), (''10.0.0.6'', [entry_at 2 ''id'' None])]
     = Inr (1, [Wrote ''10.0.0.5-Complete.log'' (''08/15 10:00:01 UTC [input] whoami'' @ [LF]),
                WriteError ''10.0.0.6-Complete.log''])"
proof -
  have m: "mkdir_ok \<lparr>mkdir_ok = True, write_ok = (\<lambda>name. name \<noteq> ''10.0.0.6-Complete.log'')\<rparr>" by simp
  show ?thesis
    using m write_failure_skips_one_group[OF m, of "[(''10.0.0.5'', [entry_at 1 ''whoami'' None]), (''10.0.0.6'', [entry_at 2 ''id'' None])]"]
    by (simp add: group_event_def complete_log_name_def entry_at_def format_def strftime_def pad2_def digit_char_def)
qed


section \<open>Grouping by entity and date folder\<close>

lemma map_of_append_to:
  "map_of (append_to key v agg) k' = (if k' = key then Some (group_of agg key @ [v]) else map_of agg k')"
  by (induction agg) (auto simp: group_of_def)

lemma group_of_append_to:
  "group_of (append_to key v agg) k' = group_of agg k' @ (if k' = key then [v] else [])"
  by (simp add: group_of_def map_of_append_to)

lemma keys_append_to: "fst ` set (append_to key v agg) = insert key (fst ` set agg)"
proof (induction agg)
  case Nil
  show ?case by simp
next
  case (Cons p agg)
  obtain k vs where p: "p = (k, vs)" by (cases p)
  show ?case
    unfolding p using Cons.IH by (cases "k = key") (simp_all add: insert_commute)
qed

lemma distinct_append_to:
  "distinct (map fst agg) \<Longrightarrow> distinct (map fst (append_to key v agg))"
proof (induction agg)
  case Nil
  show ?case by simp
next
  case (Cons p agg)
  obtain k vs where p: "p = (k, vs)" by (cases p)
  from Cons.prems have d: "distinct (map fst agg)" and k: "k \<notin> fst ` set agg"
    unfolding p by simp_all
  show ?case
  proof (cases "k = key")
    case True
    with d k show ?thesis unfolding p by simp
  next
    case False
    with k have "k \<notin> fst ` set (append_to key v agg)" by (simp add: keys_append_to)
    with False Cons.IH[OF d] show ?thesis unfolding p by simp
  qed
qed

lemma no_empty_append_to: "no_empty_group agg \<Longrightarrow> no_empty_group (append_to key v agg)"
  by (induction agg) (auto simp: no_empty_group_def)

lemma agg_ok_add_entry: "agg_ok agg \<Longrightarrow> agg_ok (add_entry ip agg e)"
  by (simp add: agg_ok_def add_entry_def distinct_append_to no_empty_append_to split: option.splits)

lemma agg_ok_inner: "agg_ok agg \<Longrightarrow> agg_ok (foldl (add_entry ip) agg es)"
  by (rule foldl_invariant) (simp_all add: agg_ok_add_entry)

lemma agg_ok_group: "agg_ok (group_by_ip_and_date m)"
  unfolding group_by_ip_and_date_def
proof (rule foldl_invariant)
  show "agg_ok []" by (simp add: agg_ok_def no_empty_group_def)
next
  fix s :: "((string \<times> string) \<times> LogEntry list) list" and x :: "string \<times> LogEntry list"
  assume "agg_ok s"
  then show "agg_ok (case x of (ip, entries) \<Rightarrow> foldl (add_entry ip) s entries)"
    by (cases x) (simp add: agg_ok_inner)
qed

lemma group_of_add_entry:
  "group_of (add_entry ip agg e) (ip', d) =
     group_of agg (ip', d) @ (if ip' = ip \<and> d \<noteq> [] \<and> date_folder e = Some d then [e] else [])"
  by (auto simp: add_entry_def group_of_append_to split: option.splits)

lemma group_of_inner:
  "group_of (foldl (add_entry ip) agg es) (ip', d) =
     group_of agg (ip', d) @ (if ip' = ip \<and> d \<noteq> [] then dated d es else [])"
  by (induction es arbitrary: agg) (auto simp: group_of_add_entry dated_def)

lemma group_of_outer:
  "group_of (foldl (\<lambda>aggregated (ip, entries). foldl (add_entry ip) aggregated entries) agg m) (ip', d) =
     group_of agg (ip', d) @
     (if d \<noteq> [] then concat (map (\<lambda>(ip, es). if ip = ip' then dated d es else []) m) else [])"
proof (induction m arbitrary: agg)
  case Nil
  show ?case by simp
next
  case (Cons p m)
  obtain ip es where p: "p = (ip, es)" by (cases p)
  show ?case unfolding p by (simp add: Cons.IH group_of_inner)
qed

lemma concat_one_key:
  "distinct (map fst m) \<Longrightarrow>
     concat (map (\<lambda>(ip, es). if ip = ip' then dated d es else []) m) = dated d (entries_of m ip')"
proof (induction m)
  case Nil
  show ?case by (simp add: entries_of_def dated_def)
next
  case (Cons p m)
  obtain ip es where p: "p = (ip, es)" by (cases p)
  from Cons.prems have dm: "distinct (map fst m)" and nin: "ip \<notin> fst ` set m" unfolding p by auto
  show ?case
  proof (cases "ip = ip'")
    case True
    with nin have "map_of m ip' = None" by (simp add: map_of_eq_None_iff)
    then have "dated d (entries_of m ip') = []" by (simp add: entries_of_def dated_def)
    with Cons.IH[OF dm] True show ?thesis unfolding p by (simp add: entries_of_def)
  next
    case False
    with Cons.IH[OF dm] show ?thesis unfolding p by (simp add: entries_of_def)
  qed
qed

lemma no_empty_map_of: "no_empty_group agg \<Longrightarrow> map_of agg key \<noteq> Some []"
  by (induction agg) (auto simp: no_empty_group_def)

lemma map_of_by_group:
  assumes "no_empty_group agg"
  shows "map_of agg key = (if group_of agg key = [] then None else Some (group_of agg key))"
  using no_empty_map_of[OF assms, of key] by (auto simp: group_of_def split: option.splits)

lemma group_of_group:
  assumes "distinct (map fst m)"
  shows "group_of (group_by_ip_and_date m) (ip, d) = (if d \<noteq> [] then dated d (entries_of m ip) else [])"
  unfolding group_by_ip_and_date_def group_of_outer concat_one_key[OF assms]
  by (simp add: group_of_def)

lemma map_of_group:
  assumes "distinct (map fst m)"
  shows "map_of (group_by_ip_and_date m) (ip, d) =
     (if d = [] \<or> dated d (entries_of m ip) = [] then None else Some (dated d (entries_of m ip)))"
  using agg_ok_group[of m] map_of_by_group[of "group_by_ip_and_date m" "(ip, d)"]
  by (simp add: agg_ok_def group_of_group[OF assms])

lemma keys_aggregate_by_ip_and_date:
  "map fst (aggregate_by_ip_and_date m) = map fst (group_by_ip_and_date m)"
  unfolding aggregate_by_ip_and_date_def by (induction "group_by_ip_and_date m") auto

text \<open>
  C4, amended. For a mapping with distinct keys, \<open>aggregate_by_ip_and_date\<close> returns a
  mapping with distinct keys in which the key of an entity and a date folder \<open>d\<close> holds
  exactly the entries of that entity whose date folder is \<open>d\<close>, sorted by timestamp with
  the stable sort; the key is missing when there is no such entry, and also when \<open>d\<close> is
  the empty string. So an entry is left out when its date folder is absent or empty, and
  every other entry is in the one group of its entity and date folder.
\<close>

theorem aggregate_by_ip_and_date_groups:
  assumes "distinct (map fst m)"
  shows "distinct (map fst (aggregate_by_ip_and_date m)) \<and>
    map_of (aggregate_by_ip_and_date m) (ip, d) =
      (if d = [] \<or> dated d (entries_of m ip) = [] then None
       else Some (by_timestamp (dated d (entries_of m ip)))) \<and>
    sorted (map (\<lambda>e. dt_key (timestamp e)) (by_timestamp (dated d (entries_of m ip)))) \<and>
    (\<forall>t. filter (\<lambda>e. timestamp e = t) (by_timestamp (dated d (entries_of m ip)))
          = filter (\<lambda>e. timestamp e = t) (dated d (entries_of m ip)))"
proof -
  have "map_of (aggregate_by_ip_and_date m) (ip, d) = map_option by_timestamp (map_of (group_by_ip_and_date m) (ip, d))"
    unfolding aggregate_by_ip_and_date_def by (simp add: map_of_map)
  then have "map_of (aggregate_by_ip_and_date m) (ip, d) =
      (if d = [] \<or> dated d (entries_of m ip) = [] then None
       else Some (by_timestamp (dated d (entries_of m ip))))"
    by (simp add: map_of_group[OF assms])
  moreover have "distinct (map fst (aggregate_by_ip_and_date m))"
    using agg_ok_group[of m] by (simp add: keys_aggregate_by_ip_and_date agg_ok_def)
  ultimately show ?thesis
    by (simp add: by_timestamp_stable by_timestamp_sorted)
qed


theorem aggregate_by_ip_and_date_groups_witness:
  "distinct (map fst [(''10.0.0.5'', [entry_at 5 ''c'' (Some ''230815''), entry_at 1 ''a'' (Some ''230815''),
        entry_at 2 ''b'' None, entry_at 3 ''d'' (Some ''230816'')])])
   \<and> map_of (aggregate_by_ip_and_date [(''10.0.0.5'', [entry_at 5 ''c'' (Some ''230815''), entry_at 1 ''a'' (Some ''230815''),
        entry_at 2 ''b'' None, entry_at 3 ''d'' (Some ''230816'')])]) (''10.0.0.5'', ''230815'')
      = Some [entry_at 1 ''a'' (Some ''230815''), entry_at 5 ''c'' (Some ''230815'')]"
proof -
  have h: "distinct (map fst [(''10.0.0.5'', [entry_at 5 ''c'' (Some ''230815''), entry_at 1 ''a'' (Some ''230815''),
        entry_at 2 ''b'' None, entry_at 3 ''d'' (Some ''230816'')])])" by simp
  show ?thesis
    using h aggregate_by_ip_and_date_groups[OF h, of "''10.0.0.5''" "''230815''"]
    by (simp add: dated_def entries_of_def by_timestamp_def entry_at_def dt_key_def)
qed

text \<open>
  C4, as stated, fails: an entry whose date folder is present and is the empty string (the
  parser makes such entries when it is called with that date folder) is in no group.
\<close>

theorem empty_date_folder_excluded_counterexample:
  "aggregate_by_ip_and_date [(''10.0.0.5'', [entry_at 1 ''whoami'' (Some [])])] = []"
  by (simp add: aggregate_by_ip_and_date_def group_by_ip_and_date_def add_entry_def entry_at_def)

section \<open>Rendering what was parsed\<close>

lemma below_ten: "k < 10 \<Longrightarrow> k \<in> {0, 1, 2, 3, 4, 5, 6, 7, 8, 9::nat}"
  by auto

lemma digit_char_decimal: "k < 10 \<Longrightarrow> is_decimal (digit_char k)"
  using below_ten[of k] by (auto simp: is_decimal_def digit_char_def)

lemma digit_val_char: "k < 10 \<Longrightarrow> digit_val (digit_char k) = k"
  using below_ten[of k] by (auto simp: digit_val_def digit_char_def)

lemma decimal_plain: "is_decimal c \<Longrightarrow> \<not> is_space c \<and> c \<noteq> CHR ''/'' \<and> c \<noteq> CHR '':''"
  by (auto simp: is_decimal_def is_space_def)

lemma pad2_digits:
  assumes "n < 100"
  shows "\<exists>a b. pad2 n = [a, b] \<and> is_decimal a \<and> is_decimal b \<and> 10 * digit_val a + digit_val b = n"
proof -
  have "n div 10 < 10" "n mod 10 < 10" using assms by simp_all
  then show ?thesis
    by (simp add: pad2_def digit_char_decimal digit_val_char)
qed

lemma py_int_two: "is_decimal a \<Longrightarrow> is_decimal b \<Longrightarrow> py_int [a, b] = Some (10 * digit_val a + digit_val b)"
  by (simp add: py_int_def)

lemma split_two:
  "a1 \<noteq> sep \<Longrightarrow> a2 \<noteq> sep \<Longrightarrow> b1 \<noteq> sep \<Longrightarrow> b2 \<noteq> sep \<Longrightarrow>
     split sep ([a1, a2] @ [sep] @ [b1, b2]) = [[a1, a2], [b1, b2]]"
  by (simp add: split_def)

lemma split_three:
  "a1 \<noteq> sep \<Longrightarrow> a2 \<noteq> sep \<Longrightarrow> b1 \<noteq> sep \<Longrightarrow> b2 \<noteq> sep \<Longrightarrow> c1 \<noteq> sep \<Longrightarrow> c2 \<noteq> sep \<Longrightarrow>
     split sep ([a1, a2] @ [sep] @ [b1, b2] @ [sep] @ [c1, c2]) = [[a1, a2], [b1, b2], [c1, c2]]"
  by (simp add: split_def)

lemma build_timestamp_digits:
  assumes "is_decimal a1" "is_decimal a2" "is_decimal b1" "is_decimal b2"
    "is_decimal c1" "is_decimal c2" "is_decimal d1" "is_decimal d2" "is_decimal e1" "is_decimal e2"
  shows "build_timestamp y ([a1, a2] @ ''/'' @ [b1, b2]) ([c1, c2] @ '':'' @ [d1, d2] @ '':'' @ [e1, e2])
    = mk_datetime y (10 * digit_val a1 + digit_val a2) (10 * digit_val b1 + digit_val b2)
        (10 * digit_val c1 + digit_val c2) (10 * digit_val d1 + digit_val d2) (10 * digit_val e1 + digit_val e2)"
  unfolding build_timestamp_def
  using assms split_two[of a1 "CHR ''/''" a2 b1 b2] split_three[of c1 "CHR '':''" c2 d1 d2 e1 e2]
  by (simp add: decimal_plain py_int_two)

lemma bracket_body_kind:
  assumes "kind \<noteq> []" "CHR '']'' \<notin> set kind"
  shows "bracket_body (kind @ CHR '']'' # r) = Some (kind, r)"
proof -
  have "takeWhile (\<lambda>c. c \<noteq> CHR '']'') (kind @ CHR '']'' # r) = kind"
    using assms(2) by (induction kind) auto
  moreover have "dropWhile (\<lambda>c. c \<noteq> CHR '']'') (kind @ CHR '']'' # r) = CHR '']'' # r"
    using assms(2) by (induction kind) auto
  ultimately show ?thesis using assms(1) by (simp add: bracket_body_def)
qed

lemma spaces1_one: "r = [] \<or> \<not> is_space (hd r) \<Longrightarrow> spaces1 (CHR '' '' # r) = Some r"
  by (cases r) (auto simp: spaces1_def is_space_def)

lemma match_digits:
  assumes dec: "is_decimal a1" "is_decimal a2" "is_decimal b1" "is_decimal b2"
    "is_decimal c1" "is_decimal c2" "is_decimal d1" "is_decimal d2" "is_decimal e1" "is_decimal e2"
    and kind: "kind \<noteq> []" "CHR '']'' \<notin> set kind"
    and free: "free = [] \<or> \<not> is_space (hd free)" "LF \<notin> set free"
  shows "TIMESTAMP_PATTERN_match
      ([a1, a2] @ ''/'' @ [b1, b2] @ '' '' @ [c1, c2] @ '':'' @ [d1, d2] @ '':'' @ [e1, e2] @
        '' UTC ['' @ kind @ ''] '' @ free)
    = Some ([a1, a2] @ ''/'' @ [b1, b2], [c1, c2] @ '':'' @ [d1, d2] @ '':'' @ [e1, e2], kind, free)"
proof -
  have s1: "spaces1 (CHR '' '' # c1 # r) = Some (c1 # r)" for r
    using dec(5) by (intro spaces1_one) (simp add: decimal_plain)
  have s2: "spaces1 (CHR '' '' # CHR ''U'' # r) = Some (CHR ''U'' # r)" for r
    by (intro spaces1_one) (simp add: is_space_def)
  have s3: "spaces1 (CHR '' '' # CHR ''['' # r) = Some (CHR ''['' # r)" for r
    by (intro spaces1_one) (simp add: is_space_def)
  have s4: "spaces1 (CHR '' '' # free) = Some free"
    using free(1) by (rule spaces1_one)
  have b: "bracket_body (kind @ CHR '']'' # CHR '' '' # free) = Some (kind, CHR '' '' # free)"
    using kind by (rule bracket_body_kind)
  have r: "rest_of_line free = Some free" using free(2) by (simp add: rest_of_line_def)
  show ?thesis
    unfolding TIMESTAMP_PATTERN_match_def
    using dec by (simp add: s1 s2 s3 s4 b r)
qed


lemma mk_datetime_bounds:
  assumes "mk_datetime y mo d h mi s = Some ts"
  shows "mo < 100" "d < 100" "h < 100" "mi < 100" "s < 100"
proof -
  from assms have b: "mo \<le> 12" "d \<le> days_in_month y mo" "h \<le> 23" "mi \<le> 59" "s \<le> 59"
    by (auto simp: mk_datetime_def split: if_splits)
  have "days_in_month y mo \<le> 31" by (simp add: days_in_month_def)
  with b show "mo < 100" "d < 100" "h < 100" "mi < 100" "s < 100" by simp_all
qed

lemma mk_datetime_fields:
  assumes "mk_datetime y mo d h mi s = Some ts"
  shows "strftime ts = pad2 mo @ ''/'' @ pad2 d @ '' '' @ pad2 h @ '':'' @ pad2 mi @ '':'' @ pad2 s"
  using assms by (auto simp: mk_datetime_def strftime_def split: if_splits)

lemma header_line_parts:
  assumes "mk_datetime y mo d h mi s = Some ts"
    and "kind \<noteq> []" "CHR '']'' \<notin> set kind"
    and "free = [] \<or> \<not> is_space (hd free)" "LF \<notin> set free"
  shows "\<exists>mm_dd time_str.
      TIMESTAMP_PATTERN_match (header_line mo d h mi s kind free) = Some (mm_dd, time_str, kind, free)
      \<and> build_timestamp y mm_dd time_str = Some ts"
proof -
  note b = mk_datetime_bounds[OF assms(1)]
  obtain a1 a2 where a: "pad2 mo = [a1, a2]" "is_decimal a1" "is_decimal a2"
      "10 * digit_val a1 + digit_val a2 = mo" using pad2_digits[OF b(1)] by blast
  obtain b1 b2 where bb: "pad2 d = [b1, b2]" "is_decimal b1" "is_decimal b2"
      "10 * digit_val b1 + digit_val b2 = d" using pad2_digits[OF b(2)] by blast
  obtain c1 c2 where c: "pad2 h = [c1, c2]" "is_decimal c1" "is_decimal c2"
      "10 * digit_val c1 + digit_val c2 = h" using pad2_digits[OF b(3)] by blast
  obtain d1 d2 where dd: "pad2 mi = [d1, d2]" "is_decimal d1" "is_decimal d2"
      "10 * digit_val d1 + digit_val d2 = mi" using pad2_digits[OF b(4)] by blast
  obtain e1 e2 where e: "pad2 s = [e1, e2]" "is_decimal e1" "is_decimal e2"
      "10 * digit_val e1 + digit_val e2 = s" using pad2_digits[OF b(5)] by blast
  have m: "TIMESTAMP_PATTERN_match (header_line mo d h mi s kind free)
    = Some ([a1, a2] @ ''/'' @ [b1, b2], [c1, c2] @ '':'' @ [d1, d2] @ '':'' @ [e1, e2], kind, free)"
    unfolding header_line_def a(1) bb(1) c(1) dd(1) e(1)
    by (rule match_digits) (fact a bb c dd e assms)+
  have "build_timestamp y ([a1, a2] @ ''/'' @ [b1, b2]) ([c1, c2] @ '':'' @ [d1, d2] @ '':'' @ [e1, e2])
     = mk_datetime y mo d h mi s"
    using build_timestamp_digits[OF a(2,3) bb(2,3) c(2,3) dd(2,3) e(2,3), of y]
    unfolding a(4) bb(4) c(4) dd(4) e(4) .
  with m assms(1) show ?thesis by simp
qed

lemma join_lines_LF: "join_lines (l # ls) @ [LF] = concat (map (\<lambda>x. x @ [LF]) (l # ls))"
  by (induction ls arbitrary: l) simp_all

lemma continuation_lines:
  "\<forall>l\<in>set conts. TIMESTAMP_PATTERN_match l = None \<Longrightarrow>
     foldl (parse_line y df src ip) (es, Some e, out) conts
       = (es, Some (e\<lparr>content := content e @ conts\<rparr>), out)"
proof (induction conts arbitrary: e)
  case Nil
  show ?case by simp
next
  case (Cons l conts)
  from Cons.prems have l: "TIMESTAMP_PATTERN_match l = None"
    and r: "\<forall>l\<in>set conts. TIMESTAMP_PATTERN_match l = None" by simp_all
  have "parse_line y df src ip (es, Some e, out) l = (es, Some (e\<lparr>content := content e @ [l]\<rparr>), out)"
    using l by (simp add: parse_line_def)
  then show ?case using Cons.IH[OF r, of "e\<lparr>content := content e @ [l]\<rparr>"] by simp
qed

lemma header_step_emits:
  "TIMESTAMP_PATTERN_match l \<noteq> None \<Longrightarrow> fst (parse_line y df src ip (es, Some e, out) l) = es @ [e]"
  by (auto simp: parse_line_def Let_def split: option.splits)

lemma open_entry_first:
  assumes "rest = [] \<or> TIMESTAMP_PATTERN_match (hd rest) \<noteq> None"
  shows "\<exists>more. entries_after y df src ip ([], Some e, out) rest = e # more"
proof (cases rest)
  case Nil
  then show ?thesis by (simp add: entries_after_def finish_def)
next
  case (Cons r rs)
  with assms have "fst (parse_line y df src ip ([], Some e, out) r) = [e]"
    using header_step_emits[of r y df src ip "[]" e out] by simp
  moreover obtain more where
    "entries_after y df src ip (parse_line y df src ip ([], Some e, out) r) rs
       = fst (parse_line y df src ip ([], Some e, out) r) @ more"
    using entries_after_grows by blast
  ultimately show ?thesis unfolding Cons by (simp add: entries_after_def)
qed

lemma splitlines_from_clean:
  "list_all (\<lambda>c. \<not> is_linebreak c) acc \<Longrightarrow>
     list_all (list_all (\<lambda>c. \<not> is_linebreak c)) (splitlines_from acc s)"
proof (induction acc s rule: splitlines_from.induct)
  case (1 acc)
  then show ?case by simp
next
  case (2 acc c)
  then show ?case by simp
next
  case (3 acc c d cs)
  show ?case
  proof (cases "c = CR \<and> d = LF")
    case True
    with 3 show ?thesis by simp
  next
    case False
    note nf = this
    show ?thesis
    proof (cases "is_linebreak c")
      case True
      with nf 3 show ?thesis by simp
    next
      case False
      with nf 3 show ?thesis by simp
    qed
  qed
qed

lemma splitlines_clean: "l \<in> set (splitlines s) \<Longrightarrow> LF \<notin> set l"
proof -
  assume l: "l \<in> set (splitlines s)"
  have "list_all (list_all (\<lambda>c. \<not> is_linebreak c)) (splitlines s)"
    unfolding splitlines_def by (rule splitlines_from_clean) simp
  with l have "list_all (\<lambda>c. \<not> is_linebreak c) l" by (simp add: list_all_iff)
  moreover have "is_linebreak LF" by (simp add: is_linebreak_def LF_def)
  ultimately show ?thesis by (auto simp: list_all_iff)
qed

text \<open>
  C2, amended. Let the first line of the text be a header line of the grammar whose
  numbers make a date and time of the resolved year, whose kind is not empty and has no
  closing bracket, and whose free text does not begin with a white space character. Let
  \<open>conts\<close> be the lines after it that do not match the header pattern, up to the end of
  the text or to the next line that matches. Then the parser returns a first entry, and
  \<open>format\<close> of it is the header line and the lines \<open>conts\<close>, each followed by a line
  feed: for a text whose lines end with line feeds, the text of the record byte for byte.
\<close>

theorem format_first_entry_reproduces_lines:
  assumes year: "base_year_of now_year df src = Inr (y, w)"
    and ts: "mk_datetime y mo d h mi s = Some ts"
    and kind: "kind \<noteq> []" "CHR '']'' \<notin> set kind"
    and free: "free = [] \<or> \<not> is_space (hd free)"
    and lines: "splitlines text = header_line mo d h mi s kind free # conts @ rest"
    and conts: "\<forall>l\<in>set conts. TIMESTAMP_PATTERN_match l = None"
    and rest: "rest = [] \<or> TIMESTAMP_PATTERN_match (hd rest) \<noteq> None"
  shows "\<exists>e es out. parse_beacon_log now_year text df src ip = Inr (e # es, out) \<and>
           format e = concat (map (\<lambda>l. l @ [LF]) (header_line mo d h mi s kind free # conts))"
proof -
  let ?H = "header_line mo d h mi s kind free"
  have "?H \<in> set (splitlines text)" unfolding lines by simp
  then have "LF \<notin> set ?H" by (rule splitlines_clean)
  then have lf: "LF \<notin> set free" by (simp add: header_line_def)
  from header_line_parts[OF ts kind free lf] obtain mm_dd time_str where
    m: "TIMESTAMP_PATTERN_match ?H = Some (mm_dd, time_str, kind, free)"
    and b: "build_timestamp y mm_dd time_str = Some ts" by blast
  define e0 where "e0 = \<lparr>timestamp = ts, entry_type = kind, content = [free],
      source_file = src, ip_address = ip, date_folder = df\<rparr>"
  define e where "e = e0\<lparr>content := content e0 @ conts\<rparr>"
  have step: "parse_line y df src ip ([], None, w) ?H = ([], Some e0, w)"
    using m b by (simp add: parse_line_def e0_def)
  have loop: "foldl (parse_line y df src ip) ([], None, w) (splitlines text)
      = foldl (parse_line y df src ip) ([], Some e, w) rest"
    unfolding lines e_def using step continuation_lines[OF conts, of y df src ip "[]" e0 w] by simp
  obtain more where more: "entries_after y df src ip ([], Some e, w) rest = e # more"
    using open_entry_first[OF rest] by blast
  have ne: "text \<noteq> []" using lines by (auto simp: splitlines_def)
  have "parse_beacon_log now_year text df src ip
      = Inr (finish (foldl (parse_line y df src ip) ([], Some e, w) rest))"
    using ne year loop by (simp add: parse_beacon_log_def)
  moreover have "fst (finish (foldl (parse_line y df src ip) ([], Some e, w) rest)) = e # more"
    using more by (simp add: entries_after_def)
  ultimately have p: "parse_beacon_log now_year text df src ip
      = Inr (e # more, snd (finish (foldl (parse_line y df src ip) ([], Some e, w) rest)))"
    by (metis prod.collapse)
  have "format e = join_lines ((strftime ts @ '' UTC ['' @ kind @ ''] '' @ free) # conts) @ [LF]"
    by (simp add: format_def e_def e0_def)
  also have "strftime ts @ '' UTC ['' @ kind @ ''] '' @ free = ?H"
    by (simp add: mk_datetime_fields[OF ts] header_line_def)
  finally have "format e = concat (map (\<lambda>l. l @ [LF]) (?H # conts))"
    by (simp only: join_lines_LF)
  with p show ?thesis by blast
qed


theorem format_first_entry_reproduces_lines_witness:
  "base_year_of 2026 (Some ''230815'') ''f'' = Inr (2023, [])
   \<and> mk_datetime 2023 8 15 10 0 1 = Some \<lparr>year = 2023, month = 8, day = 15, hour = 10, minute = 0,
                         second = 1, microsecond = 0\<rparr>
   \<and> splitlines (''08/15 10:00:01 UTC [input] whoami'' @ [LF] @ ''DOMAIN'' @ [CHR 0x5C] @ ''user'' @ [LF] @
      ''08/15 10:00:05 UTC [output] '' @ [LF] @ ''administrator'' @ [LF])
      = header_line 8 15 10 0 1 ''input'' ''whoami'' # [''DOMAIN'' @ [CHR 0x5C] @ ''user''] @
        [''08/15 10:00:05 UTC [output] '', ''administrator'']
   \<and> (\<exists>e es out. parse_beacon_log 2026
       (''08/15 10:00:01 UTC [input] whoami'' @ [LF] @ ''DOMAIN'' @ [CHR 0x5C] @ ''user'' @ [LF] @
        ''08/15 10:00:05 UTC [output] '' @ [LF] @ ''administrator'' @ [LF])
       (Some ''230815'') ''f'' None = Inr (e # es, out)
     \<and> format e = ''08/15 10:00:01 UTC [input] whoami'' @ [LF] @ ''DOMAIN'' @ [CHR 0x5C] @ ''user'' @ [LF])"
proof -
  have y: "base_year_of 2026 (Some ''230815'') ''f'' = Inr (2023, [])"
    by (simp add: base_year_of_def date_folder_invalid_def py_int_def digit_val_def char_defs)
  have t: "mk_datetime 2023 8 15 10 0 1 = Some \<lparr>year = 2023, month = 8, day = 15, hour = 10,
      minute = 0, second = 1, microsecond = 0\<rparr>"
    by (simp add: mk_datetime_def days_in_month_def)
  have k: "''input'' \<noteq> []" "CHR '']'' \<notin> set ''input''" by simp_all
  have f: "''whoami'' = [] \<or> \<not> is_space (hd ''whoami'')" by (simp add: is_space_def)
  have l: "splitlines (''08/15 10:00:01 UTC [input] whoami'' @ [LF] @ ''DOMAIN'' @ [CHR 0x5C] @ ''user'' @ [LF] @
      ''08/15 10:00:05 UTC [output] '' @ [LF] @ ''administrator'' @ [LF])
      = header_line 8 15 10 0 1 ''input'' ''whoami'' # [''DOMAIN'' @ [CHR 0x5C] @ ''user''] @
        [''08/15 10:00:05 UTC [output] '', ''administrator'']"
    by (simp add: splitlines_def header_line_def pad2_def digit_char_def char_defs)
  have c: "\<forall>l\<in>set [''DOMAIN'' @ [CHR 0x5C] @ ''user'']. TIMESTAMP_PATTERN_match l = None"
    by (simp add: match_defs char_defs)
  have r: "[''08/15 10:00:05 UTC [output] '', ''administrator''] = [] \<or>
      TIMESTAMP_PATTERN_match (hd [''08/15 10:00:05 UTC [output] '', ''administrator'']) \<noteq> None"
    by (simp add: match_defs char_defs)
  show ?thesis
    using y t l format_first_entry_reproduces_lines[OF y t k f l c r, of None]
    by (simp add: header_line_def pad2_def digit_char_def)
qed


text \<open>
  C2, as stated, fails: a header line of the grammar whose free text begins with a space.
  The pattern takes all white space after the bracket, the entry's first body line has
  lost the space, and \<open>format\<close> writes a single space where the text has two.
\<close>

theorem format_drops_leading_space_counterexample:
  "parse_beacon_log 2026 (''08/15 10:00:01 UTC [input]  whoami'' @ [LF]) (Some ''230815'') ''f'' None
     = Inr ([\<lparr>timestamp = \<lparr>year = 2023, month = 8, day = 15, hour = 10, minute = 0,
                         second = 1, microsecond = 0\<rparr>,
          entry_type = ''input'', content = [''whoami''],
          source_file = ''f'', ip_address = None, date_folder = Some ''230815''\<rparr>], [])
   \<and> format \<lparr>timestamp = \<lparr>year = 2023, month = 8, day = 15, hour = 10, minute = 0,
                         second = 1, microsecond = 0\<rparr>,
          entry_type = ''input'', content = [''whoami''],
          source_file = ''f'', ip_address = None, date_folder = Some ''230815''\<rparr>
     = ''08/15 10:00:01 UTC [input] whoami'' @ [LF]
   \<and> ''08/15 10:00:01 UTC [input] whoami'' @ [LF] \<noteq> ''08/15 10:00:01 UTC [input]  whoami'' @ [LF]"
  by (simp add: char_defs match_defs parse_defs format_def strftime_def pad2_def digit_char_def)


end
